theory Spec2Isabelle
  imports Main "HOL-Library.Sublist"
begin

section \<open>Data model\<close>

text \<open>
  An account record of \<^verbatim>\<open>db.data.accounts\<close> (src/db.js, \<^verbatim>\<open>addAccount\<close>). The field
  \<^verbatim>\<open>id\<close> is named \<open>acc_id\<close> here. \<^verbatim>\<open>lastRun\<close> is \<^verbatim>\<open>null\<close> or the string written by
  \<^verbatim>\<open>new Date().toISOString()\<close>; it is kept as the instant it denotes, in milliseconds
  since the epoch (\<open>None\<close> is \<^verbatim>\<open>null\<close>). \<^verbatim>\<open>status\<close> is the JavaScript string.
\<close>

type_synonym time = int

record account =
  acc_id :: string
  name :: string
  encryptedCode :: string
  targetServer :: string
  lastRun :: "time option"
  status :: string

text \<open>The object built by \<^verbatim>\<open>getAccountDecrypted\<close>: \<^verbatim>\<open>{...account, code: decrypt(...)}\<close>.\<close>

record decrypted = account +
  code :: string

text \<open>\<^verbatim>\<open>db.data.settings\<close>: two strings such as \<^verbatim>\<open>'10:00'\<close>.\<close>

record schedule =
  scheduleStart :: string
  scheduleEnd :: string

text \<open>
  What the session executor \<^verbatim>\<open>runSession\<close> (src/runner.js, an external collaborator)
  hands back: an object \<^verbatim>\<open>{success, reason}\<close> whose \<^verbatim>\<open>reason\<close> may be absent, or a thrown
  error, kept as its \<^verbatim>\<open>message\<close>.
\<close>

record run_result =
  success :: bool
  reason :: "string option"

datatype outcome = Returned run_result | Threw string

text \<open>
  The value \<^verbatim>\<open>executeSession\<close> returns: \<^verbatim>\<open>{ success, message }\<close>; its \<^verbatim>\<open>success\<close> field is
  named \<open>ok\<close> here.
\<close>

record session_result =
  ok :: bool
  message :: "string option"

text \<open>
  The messages handed to \<^verbatim>\<open>sendLog\<close>, by the template that builds their text and the
  values substituted into it; the second component of a sent entry is the \<^verbatim>\<open>type\<close>
  argument.
\<close>

datatype notice =
    Starting string
  | Completed string
  | Failed string "string option"
  | DailyReport int nat nat "string list" "string list" "string list"

text \<open>
  The process state: the store's document (\<^verbatim>\<open>db.data\<close>), the module variable
  \<^verbatim>\<open>isRunning\<close> of the manager, the notifications handed to \<^verbatim>\<open>sendLog\<close> so far, and two
  counters of the interactions with the environment: how many times \<^verbatim>\<open>new Date()\<close> was
  evaluated and which accounts \<^verbatim>\<open>runSession\<close> was called with.
\<close>

record world =
  accounts :: "account list"
  settings :: "schedule option"
  isRunning :: bool
  sent :: "(notice \<times> string) list"
  dateReads :: nat
  sessions :: "decrypted list"

text \<open>
  Each function below is followed from its call to its return with no other task of the
  process running at its \<^verbatim>\<open>await\<close>s. The store's document is the one in memory
  (\<^verbatim>\<open>db.read\<close> and \<^verbatim>\<open>db.write\<close> neither fail nor meet an edited file), \<^verbatim>\<open>sendLog\<close> does
  not throw (it catches what its calls throw), and the executor touches neither the store
  nor the lock. Console output is left out.
\<close>

text \<open>
  The environment of the process: the wall clock (the instant the \<open>n\<close>-th evaluation of
  \<^verbatim>\<open>new Date()\<close> yields; nothing is assumed of it), the offset of local time from UTC in
  minutes at an instant, the decryption of a stored code, and the executor (the outcome of
  its \<open>n\<close>-th invocation on a given account).
\<close>

record env =
  clock :: "nat \<Rightarrow> time"
  tzOffset :: "time \<Rightarrow> int"
  decrypt :: "string \<Rightarrow> string"
  runSession :: "nat \<Rightarrow> decrypted \<Rightarrow> outcome"

section \<open>Dates\<close>

definition newDate :: "env \<Rightarrow> world \<Rightarrow> time \<times> world" where
  "newDate e w = (clock e (dateReads w), w\<lparr>dateReads := Suc (dateReads w)\<rparr>)"

text \<open>\<^verbatim>\<open>getHours()\<close>: the hour of the day in local time.\<close>

definition getHours :: "env \<Rightarrow> time \<Rightarrow> int" where
  "getHours e t = ((t + tzOffset e t * 60000) div 3600000) mod 24"

text \<open>
  \<^verbatim>\<open>toISOString().split('T')[0]\<close>: the calendar date in UTC. The text \<^verbatim>\<open>YYYY-MM-DD\<close> names
  the day, and two instants give the same text exactly when they fall on the same UTC day;
  the date is kept as the number of that day.
\<close>

definition isoDate :: "time \<Rightarrow> int" where
  "isoDate t = t div 86400000"

section \<open>Reading the schedule's hours\<close>

text \<open>\<^verbatim>\<open>s.split(':')[0]\<close>\<close>

definition splitColonHead :: "string \<Rightarrow> string" where
  "splitColonHead s = takeWhile (\<lambda>c. c \<noteq> CHR '':'') s"

definition isWhiteSpace :: "char \<Rightarrow> bool" where
  "isWhiteSpace c = (c \<in> set [CHR '' '', CHR 0x09, CHR 0x0A, CHR 0x0B, CHR 0x0C, CHR 0x0D])"

definition digitValue :: "char \<Rightarrow> nat option" where
  "digitValue c =
     (let n = of_char c :: nat in
      if 48 \<le> n \<and> n \<le> 57 then Some (n - 48)
      else if 97 \<le> n \<and> n \<le> 102 then Some (n - 87)
      else if 65 \<le> n \<and> n \<le> 70 then Some (n - 55)
      else None)"

definition isDigitOf :: "nat \<Rightarrow> char \<Rightarrow> bool" where
  "isDigitOf radix c = (case digitValue c of None \<Rightarrow> False | Some d \<Rightarrow> d < radix)"

text \<open>
  \<^verbatim>\<open>parseInt(s)\<close> with no radix: leading white space is skipped, a sign is read, a prefix
  \<^verbatim>\<open>0x\<close> selects radix 16, and the longest run of digits is the value; \<open>None\<close> is \<^verbatim>\<open>NaN\<close>
  (no digit). White space is the ASCII part of JavaScript's.
\<close>

definition parseInt :: "string \<Rightarrow> int option" where
  "parseInt s =
     (let s1 = dropWhile isWhiteSpace s;
          neg = (take 1 s1 = ''-'');
          s2 = (if take 1 s1 = ''-'' \<or> take 1 s1 = ''+'' then drop 1 s1 else s1);
          hex = (take 2 s2 = ''0x'' \<or> take 2 s2 = ''0X'');
          radix = (if hex then 16 else 10);
          s3 = (if hex then drop 2 s2 else s2);
          z = takeWhile (isDigitOf radix) s3;
          v = foldl (\<lambda>n c. n * int radix + int (the (digitValue c))) 0 z
      in if z = [] then None else Some (if neg then - v else v))"

text \<open>Comparisons of JavaScript numbers: every comparison with \<^verbatim>\<open>NaN\<close> is false.\<close>

definition jsLess :: "int option \<Rightarrow> int option \<Rightarrow> bool" where
  "jsLess a b = (case a of None \<Rightarrow> False | Some x \<Rightarrow> (case b of None \<Rightarrow> False | Some y \<Rightarrow> x < y))"

definition jsGreaterEq :: "int option \<Rightarrow> int option \<Rightarrow> bool" where
  "jsGreaterEq a b = (case a of None \<Rightarrow> False | Some x \<Rightarrow> (case b of None \<Rightarrow> False | Some y \<Rightarrow> x \<ge> y))"

section \<open>The store (src/db.js)\<close>

definition defaultSchedule :: schedule where
  "defaultSchedule = \<lparr>scheduleStart = ''10:00'', scheduleEnd = ''20:00''\<rparr>"

definition getSchedule :: "world \<Rightarrow> schedule" where
  "getSchedule w = (case settings w of None \<Rightarrow> defaultSchedule | Some s \<Rightarrow> s)"

definition getAccounts :: "world \<Rightarrow> account list" where
  "getAccounts w = accounts w"

text \<open>
  \<^verbatim>\<open>updateAccountStatus\<close>: the first record with the id (\<^verbatim>\<open>find\<close>) gets the status, and the
  \<^verbatim>\<open>lastRun\<close> when one is passed; no record with the id, no change.
\<close>

fun setStatusOfFirst :: "string \<Rightarrow> string \<Rightarrow> time option \<Rightarrow> account list \<Rightarrow> account list" where
  "setStatusOfFirst i st lr [] = []"
| "setStatusOfFirst i st lr (a # as) =
     (if acc_id a = i
      then (case lr of
              None \<Rightarrow> a\<lparr>status := st\<rparr>
            | Some t \<Rightarrow> a\<lparr>status := st, lastRun := Some t\<rparr>) # as
      else a # setStatusOfFirst i st lr as)"

definition updateAccountStatus :: "string \<Rightarrow> string \<Rightarrow> time option \<Rightarrow> world \<Rightarrow> world" where
  "updateAccountStatus i st lr w = w\<lparr>accounts := setStatusOfFirst i st lr (accounts w)\<rparr>"

text \<open>\<^verbatim>\<open>{ ...account, code: decrypt(account.encryptedCode) }\<close>\<close>

definition withCode :: "env \<Rightarrow> account \<Rightarrow> decrypted" where
  "withCode e a = account.extend a (decrypted.fields (decrypt e (encryptedCode a)))"

definition getAccountDecrypted :: "env \<Rightarrow> string \<Rightarrow> world \<Rightarrow> decrypted option" where
  "getAccountDecrypted e i w =
     (case find (\<lambda>a. acc_id a = i) (accounts w) of
        None \<Rightarrow> None
      | Some a \<Rightarrow> Some (withCode e a))"

section \<open>Notifications (src/bot.js)\<close>

definition sendLog :: "notice \<Rightarrow> string \<Rightarrow> world \<Rightarrow> world" where
  "sendLog m ty w = w\<lparr>sent := sent w @ [(m, ty)]\<rparr>"

section \<open>The session orchestrator (manager, \<^verbatim>\<open>executeSession\<close>)\<close>

definition callRunSession :: "env \<Rightarrow> decrypted \<Rightarrow> world \<Rightarrow> outcome \<times> world" where
  "callRunSession e a w = (runSession e (length (sessions w)) a, w\<lparr>sessions := sessions w @ [a]\<rparr>)"

definition failure :: "string \<Rightarrow> session_result" where
  "failure m = \<lparr>ok = False, message = Some m\<rparr>"

text \<open>
  The message of the \<^verbatim>\<open>TypeError\<close> that \<^verbatim>\<open>result.reason.includes(...)\<close> throws when the
  executor's failure carries no reason.
\<close>

definition typeErrorMessage :: string where
  "typeErrorMessage = ''Cannot read properties of undefined (reading 'includes')''"

definition executeSession :: "env \<Rightarrow> string \<Rightarrow> world \<Rightarrow> session_result \<times> world" where
  "executeSession e accountId w =
     (if isRunning w then (failure ''Bot is already running a session.'', w)
      else
        let w1 = w\<lparr>isRunning := True\<rparr> in
        (case getAccountDecrypted e accountId w1 of
           None \<Rightarrow> (failure ''Account not found'', w1\<lparr>isRunning := False\<rparr>)
         | Some account \<Rightarrow>
             let w2 = sendLog (Starting (name account)) ''start'' w1;
                 w3 = updateAccountStatus (acc_id account) ''running'' None w2;
                 (out, w4) = callRunSession e account w3
             in (case out of
                   Threw msg \<Rightarrow> (failure msg, w4\<lparr>isRunning := False\<rparr>)
                 | Returned result \<Rightarrow>
                     if success result then
                       let w5 = sendLog (Completed (name account)) ''success'' w4;
                           (d, w6) = newDate e w5;
                           w7 = updateAccountStatus (acc_id account) ''idle'' (Some d) w6
                       in (\<lparr>ok = True, message = None\<rparr>, w7\<lparr>isRunning := False\<rparr>)
                     else
                       let w5 = sendLog (Failed (name account) (reason result)) ''error'' w4;
                           w6 = updateAccountStatus (acc_id account) ''error'' None w5
                       in (case reason result of
                             None \<Rightarrow> (failure typeErrorMessage, w6\<lparr>isRunning := False\<rparr>)
                           | Some r \<Rightarrow>
                               if r = ''BUSY'' then (failure ''BUSY'', w6\<lparr>isRunning := False\<rparr>)
                               else (failure r, w6\<lparr>isRunning := False\<rparr>)))))"

section \<open>The batch scheduler (manager, \<^verbatim>\<open>checkAndRun\<close>)\<close>

text \<open>The value of the variable \<^verbatim>\<open>isActiveTime\<close>.\<close>

definition isActiveTime :: "int \<Rightarrow> int option \<Rightarrow> int option \<Rightarrow> bool" where
  "isActiveTime currentHour startHour endHour =
     (if jsLess startHour endHour
      then jsGreaterEq (Some currentHour) startHour \<and> jsLess (Some currentHour) endHour
      else jsGreaterEq (Some currentHour) startHour \<or> jsLess (Some currentHour) endHour)"

text \<open>The predicate of the filter that builds \<^verbatim>\<open>pendingAccounts\<close>.\<close>

definition isPending :: "int \<Rightarrow> account \<Rightarrow> bool" where
  "isPending today a = (case lastRun a of None \<Rightarrow> True | Some t \<Rightarrow> isoDate t \<noteq> today)"

text \<open>
  The loop over \<^verbatim>\<open>pendingAccounts\<close>. Besides the state it returns the candidates it
  handed to \<^verbatim>\<open>executeSession\<close>, each with the result. The pause of five seconds after a
  candidate changes nothing but the clock's later readings.
\<close>

fun runBatch :: "env \<Rightarrow> int option \<Rightarrow> account list \<Rightarrow> world \<Rightarrow> (account \<times> session_result) list \<times> world" where
  "runBatch e endHour [] w = ([], w)"
| "runBatch e endHour (account # rest) w =
     (let (d, w1) = newDate e w in
      if jsGreaterEq (Some (getHours e d)) endHour then ([], w1)
      else
        let (result, w2) = executeSession e (acc_id account) w1 in
        if \<not> ok result \<and> message result = Some ''BUSY'' then ([(account, result)], w2)
        else
          let (more, w3) = runBatch e endHour rest w2
          in ((account, result) # more, w3))"

text \<open>The test \<^verbatim>\<open>!result.success && result.message === 'BUSY'\<close> that ends the loop.\<close>

definition busyResult :: "session_result \<Rightarrow> bool" where
  "busyResult r = (\<not> ok r \<and> message r = Some ''BUSY'')"

text \<open>
  \<^verbatim>\<open>checkAndRun\<close> after the test of the time window: the accounts are loaded, the pending
  ones selected, and the batch run over them.
\<close>

definition runPending :: "env \<Rightarrow> int option \<Rightarrow> world \<Rightarrow> (account \<times> session_result) list \<times> world" where
  "runPending e endHour w1 =
     (let accts = getAccounts w1;
          (d, w2) = newDate e w1;
          today = isoDate d;
          pendingAccounts = filter (isPending today) accts
      in if pendingAccounts = [] then ([], w2)
         else runBatch e endHour pendingAccounts w2)"

definition checkAndRun :: "env \<Rightarrow> world \<Rightarrow> (account \<times> session_result) list \<times> world" where
  "checkAndRun e w =
     (if isRunning w then ([], w)
      else
        let (now, w1) = newDate e w;
            currentHour = getHours e now;
            sch = getSchedule w1;
            startHour = parseInt (splitColonHead (scheduleStart sch));
            endHour = parseInt (splitColonHead (scheduleEnd sch))
        in if \<not> isActiveTime currentHour startHour endHour then ([], w1)
           else runPending e endHour w1)"

section \<open>The reporter (manager, \<^verbatim>\<open>generateDailyReport\<close>)\<close>

text \<open>
  \<^verbatim>\<open>account.lastRun && account.lastRun.startsWith(today)\<close>: the stored text begins with
  the text of today's date.
\<close>

definition ranOn :: "int \<Rightarrow> account \<Rightarrow> bool" where
  "ranOn today a = (case lastRun a of None \<Rightarrow> False | Some t \<Rightarrow> isoDate t = today)"

text \<open>The loop that fills the arrays \<^verbatim>\<open>successful\<close>, \<^verbatim>\<open>failed\<close> and \<^verbatim>\<open>pending\<close>.\<close>

fun sortAccounts :: "int \<Rightarrow> account list \<Rightarrow> string list \<times> string list \<times> string list
    \<Rightarrow> string list \<times> string list \<times> string list" where
  "sortAccounts today [] acc = acc"
| "sortAccounts today (a # as) (successful, failed, pending) =
     (if ranOn today a \<and> status a \<noteq> ''error''
      then sortAccounts today as (successful @ [name a], failed, pending)
      else if status a = ''error''
      then sortAccounts today as (successful, failed @ [name a], pending)
      else sortAccounts today as (successful, failed, pending @ [name a]))"

definition generateDailyReport :: "env \<Rightarrow> world \<Rightarrow> world" where
  "generateDailyReport e w =
     (let accts = getAccounts w;
          (d, w1) = newDate e w;
          today = isoDate d;
          (successful, failed, pending) = sortAccounts today accts ([], [], [])
      in sendLog (DailyReport today (length successful) (length accts) successful failed pending)
           ''info'' w1)"

section \<open>Sample environments and states\<close>

definition alice :: account where
  "alice = \<lparr>acc_id = ''1'', name = ''alice'', encryptedCode = ''U2FsdGVk'', targetServer = ''E-15'',
     lastRun = None, status = ''idle''\<rparr>"

definition bob :: account where
  "bob = \<lparr>acc_id = ''2'', name = ''bob'', encryptedCode = ''X1zzdGVk'', targetServer = ''All'',
     lastRun = None, status = ''idle''\<rparr>"

definition carol :: account where
  "carol = \<lparr>acc_id = ''3'', name = ''carol'', encryptedCode = ''Q0FsdGVk'', targetServer = ''All'',
     lastRun = None, status = ''idle''\<rparr>"

text \<open>Noon of the first day, UTC, on a machine whose local time is UTC; every session succeeds.\<close>

definition noonEnv :: env where
  "noonEnv = \<lparr>clock = (\<lambda>n. 43200000), tzOffset = (\<lambda>t. 0), decrypt = (\<lambda>s. s),
     runSession = (\<lambda>n a. Returned \<lparr>success = True, reason = None\<rparr>)\<rparr>"

text \<open>The executor throws on every invocation.\<close>

definition throwingEnv :: env where
  "throwingEnv = noonEnv\<lparr>runSession := (\<lambda>n a. Threw ''Navigation timeout'')\<rparr>"

text \<open>The executor's first session succeeds; from the second on the site is full.\<close>

definition busyEnv :: env where
  "busyEnv = noonEnv\<lparr>runSession := (\<lambda>n a.
     if n = 0 then Returned \<lparr>success = True, reason = None\<rparr>
     else Returned \<lparr>success = False, reason = Some ''BUSY''\<rparr>)\<rparr>"

text \<open>Every session fails on the restore code.\<close>

definition failingEnv :: env where
  "failingEnv = noonEnv\<lparr>runSession := (\<lambda>n a.
     Returned \<lparr>success = False, reason = Some ''Invalid restore code''\<rparr>)\<rparr>"

text \<open>Eleven in the evening, local time and UTC.\<close>

definition lateEnv :: env where
  "lateEnv = noonEnv\<lparr>clock := (\<lambda>n. 82800000)\<rparr>"

text \<open>Nine in the morning, local time and UTC.\<close>

definition morningEnv :: env where
  "morningEnv = noonEnv\<lparr>clock := (\<lambda>n. 32400000)\<rparr>"

text \<open>
  A machine on Indian time (UTC+5:30) at 19:00 UTC of the first day, which is 00:30 of the
  second day there.
\<close>

definition istEnv :: env where
  "istEnv = noonEnv\<lparr>clock := (\<lambda>n. 68400000), tzOffset := (\<lambda>t. 330)\<rparr>"

definition idleWorld :: world where
  "idleWorld = \<lparr>accounts = [alice, bob], settings = None, isRunning = False, sent = [],
     dateReads = 0, sessions = []\<rparr>"

definition lockedWorld :: world where
  "lockedWorld = idleWorld\<lparr>isRunning := True\<rparr>"

definition threeWorld :: world where
  "threeWorld = idleWorld\<lparr>accounts := [alice, bob, carol]\<rparr>"

text \<open>The schedule from 22:00 to 08:00, one account that has never run.\<close>

definition nightWorld :: world where
  "nightWorld = idleWorld\<lparr>accounts := [alice],
     settings := Some \<lparr>scheduleStart = ''22:00'', scheduleEnd = ''08:00''\<rparr>\<rparr>"

text \<open>
  The schedule from 00:00 to 08:00; the account last ran at 18:00 UTC of the first day,
  which is 23:30 of the first day on Indian time.
\<close>

definition istWorld :: world where
  "istWorld = idleWorld\<lparr>accounts := [alice\<lparr>lastRun := Some 64800000\<rparr>],
     settings := Some \<lparr>scheduleStart = ''00:00'', scheduleEnd = ''08:00''\<rparr>\<rparr>"

text \<open>
  The calendar date in local time, as the specification words the pending set (the code
  has no such computation).
\<close>

definition localDate :: "env \<Rightarrow> time \<Rightarrow> int" where
  "localDate e t = (t + tzOffset e t * 60000) div 86400000"

text \<open>
  The pending predicate as the specification words it, on local calendar dates; \<open>now\<close>
  is the instant of the tick.
\<close>

definition isPendingLocal :: "env \<Rightarrow> time \<Rightarrow> account \<Rightarrow> bool" where
  "isPendingLocal e now a =
     (case lastRun a of None \<Rightarrow> True | Some t \<Rightarrow> localDate e t \<noteq> localDate e now)"

text \<open>
  The test for Completed as the specification words it, on local calendar dates; \<open>now\<close>
  is the instant of the report.
\<close>

definition isCompletedLocal :: "env \<Rightarrow> time \<Rightarrow> account \<Rightarrow> bool" where
  "isCompletedLocal e now a =
     ((case lastRun a of None \<Rightarrow> False | Some t \<Rightarrow> localDate e t = localDate e now) \<and>
      status a \<noteq> ''error'')"

text \<open>
  A machine on Hawaiian time (UTC-10) at 00:30 UTC of the second day, which is 14:30 of
  the first day there.
\<close>

definition hawaiiEnv :: env where
  "hawaiiEnv = noonEnv\<lparr>clock := (\<lambda>n. 88200000), tzOffset := (\<lambda>t. - 600)\<rparr>"

text \<open>
  The account last ran at 20:00 UTC of the first day, which is 10:00 of the first day on
  Hawaiian time: the local day of the report above.
\<close>

definition hawaiiWorld :: world where
  "hawaiiWorld = idleWorld\<lparr>accounts := [alice\<lparr>lastRun := Some 72000000\<rparr>]\<rparr>"

text \<open>
  Three accounts on the second UTC day: alice ran at 01:00 UTC of that day, bob ran then
  too and failed, carol last ran at 20:00 UTC of the first day.
\<close>

definition reportWorld :: world where
  "reportWorld = idleWorld\<lparr>accounts :=
     [alice\<lparr>lastRun := Some 90000000\<rparr>,
      bob\<lparr>lastRun := Some 90000000, status := ''error''\<rparr>,
      carol\<lparr>lastRun := Some 72000000\<rparr>]\<rparr>"

text \<open>The number of records whose status is \<^verbatim>\<open>'running'\<close>.\<close>

definition runningCount :: "world \<Rightarrow> nat" where
  "runningCount w = length (filter (\<lambda>a. status a = ''running'') (accounts w))"

section \<open>The store operations\<close>

lemma withCode_fields [simp]:
  "acc_id (withCode e a) = acc_id a" "name (withCode e a) = name a"
  by (simp_all add: withCode_def account.defs)

lemma find_acc_id: "find (\<lambda>a. acc_id a = i) xs = Some a \<Longrightarrow> acc_id a = i"
  by (induction xs) (auto split: if_splits)

lemma setStatusOfFirst_length [simp]: "length (setStatusOfFirst i st lr xs) = length xs"
  by (induction xs) auto

lemma setStatusOfFirst_ids [simp]: "map acc_id (setStatusOfFirst i st lr xs) = map acc_id xs"
  by (induction xs) (auto split: option.splits)

lemma setStatusOfFirst_twice [simp]:
  "setStatusOfFirst i st' lr' (setStatusOfFirst i st None xs) = setStatusOfFirst i st' lr' xs"
  by (induction xs) (auto split: option.splits)

text \<open>The record found by id is the one updated; the records around it stay.\<close>

lemma setStatusOfFirst_found:
  "find (\<lambda>a. acc_id a = i) xs = Some a \<Longrightarrow>
   \<exists>before after. xs = before @ a # after \<and> (\<forall>b \<in> set before. acc_id b \<noteq> i) \<and>
     setStatusOfFirst i st None xs = before @ a\<lparr>status := st\<rparr> # after"
proof (induction xs)
  case Nil
  then show ?case by simp
next
  case (Cons x xs)
  show ?case
  proof (cases "acc_id x = i")
    case True
    with Cons.prems have "x = a" by simp
    with True have "x # xs = [] @ a # xs \<and> (\<forall>b \<in> set []. acc_id b \<noteq> i) \<and>
        setStatusOfFirst i st None (x # xs) = [] @ a\<lparr>status := st\<rparr> # xs"
      by simp
    then show ?thesis by blast
  next
    case False
    with Cons.prems have "find (\<lambda>a. acc_id a = i) xs = Some a" by simp
    from Cons.IH[OF this] obtain before after where
      "xs = before @ a # after" "\<forall>b \<in> set before. acc_id b \<noteq> i"
      "setStatusOfFirst i st None xs = before @ a\<lparr>status := st\<rparr> # after"
      by blast
    with False have "x # xs = (x # before) @ a # after \<and> (\<forall>b \<in> set (x # before). acc_id b \<noteq> i) \<and>
        setStatusOfFirst i st None (x # xs) = (x # before) @ a\<lparr>status := st\<rparr> # after"
      by simp
    then show ?thesis by blast
  qed
qed

section \<open>The five ways through \<^verbatim>\<open>executeSession\<close>\<close>

lemma executeSession_locked:
  "isRunning w \<Longrightarrow> executeSession e i w = (failure ''Bot is already running a session.'', w)"
  by (simp add: executeSession_def)

lemma executeSession_not_found:
  "\<not> isRunning w \<Longrightarrow> find (\<lambda>a. acc_id a = i) (accounts w) = None \<Longrightarrow>
   executeSession e i w = (failure ''Account not found'', w)"
  by (simp add: executeSession_def getAccountDecrypted_def)

lemma executeSession_threw:
  assumes "\<not> isRunning w" and "find (\<lambda>a. acc_id a = i) (accounts w) = Some a"
    and "runSession e (length (sessions w)) (withCode e a) = Threw msg"
  shows "executeSession e i w = (failure msg,
     w\<lparr>accounts := setStatusOfFirst i ''running'' None (accounts w),
       sent := sent w @ [(Starting (name a), ''start'')],
       sessions := sessions w @ [withCode e a]\<rparr>)"
  using assms find_acc_id[OF assms(2)]
  by (simp add: executeSession_def getAccountDecrypted_def sendLog_def updateAccountStatus_def
      callRunSession_def)

lemma executeSession_succeeded:
  assumes "\<not> isRunning w" and "find (\<lambda>a. acc_id a = i) (accounts w) = Some a"
    and "runSession e (length (sessions w)) (withCode e a) = Returned r" and "success r"
  shows "executeSession e i w = (\<lparr>ok = True, message = None\<rparr>,
     w\<lparr>accounts := setStatusOfFirst i ''idle'' (Some (clock e (dateReads w))) (accounts w),
       sent := sent w @ [(Starting (name a), ''start''), (Completed (name a), ''success'')],
       dateReads := Suc (dateReads w),
       sessions := sessions w @ [withCode e a]\<rparr>)"
  using assms find_acc_id[OF assms(2)]
  by (simp add: executeSession_def getAccountDecrypted_def sendLog_def updateAccountStatus_def
      callRunSession_def newDate_def)

lemma executeSession_failed:
  assumes "\<not> isRunning w" and "find (\<lambda>a. acc_id a = i) (accounts w) = Some a"
    and "runSession e (length (sessions w)) (withCode e a) = Returned r" and "\<not> success r"
  shows "executeSession e i w =
    (failure (case reason r of None \<Rightarrow> typeErrorMessage | Some m \<Rightarrow> m),
     w\<lparr>accounts := setStatusOfFirst i ''error'' None (accounts w),
       sent := sent w @ [(Starting (name a), ''start''), (Failed (name a) (reason r), ''error'')],
       sessions := sessions w @ [withCode e a]\<rparr>)"
  using assms find_acc_id[OF assms(2)]
  by (simp add: executeSession_def getAccountDecrypted_def sendLog_def updateAccountStatus_def
      callRunSession_def Let_def split: option.splits)

lemma executeSession_paths [case_names locked not_found threw succeeded failed]:
  obtains "isRunning w"
  | "\<not> isRunning w" "find (\<lambda>a. acc_id a = i) (accounts w) = None"
  | a msg where "\<not> isRunning w" "find (\<lambda>a. acc_id a = i) (accounts w) = Some a"
      "runSession e (length (sessions w)) (withCode e a) = Threw msg"
  | a r where "\<not> isRunning w" "find (\<lambda>a. acc_id a = i) (accounts w) = Some a"
      "runSession e (length (sessions w)) (withCode e a) = Returned r" "success r"
  | a r where "\<not> isRunning w" "find (\<lambda>a. acc_id a = i) (accounts w) = Some a"
      "runSession e (length (sessions w)) (withCode e a) = Returned r" "\<not> success r"
proof (cases "isRunning w")
  case True
  then show ?thesis by (rule that(1))
next
  case free: False
  show ?thesis
  proof (cases "find (\<lambda>a. acc_id a = i) (accounts w)")
    case None
    with free show ?thesis by (rule that(2))
  next
    case (Some a)
    show ?thesis
    proof (cases "runSession e (length (sessions w)) (withCode e a)")
      case (Threw msg)
      with free Some show ?thesis by (rule that(3))
    next
      case (Returned r)
      with free Some show ?thesis
        by (cases "success r") (auto intro: that(4) that(5))
    qed
  qed
qed

section \<open>Local contention\<close>

text \<open>
  C9. Invoked while the lock is held, the orchestrator returns at once the failure
  \<^verbatim>\<open>'Bot is already running a session.'\<close>, which is not the reason \<^verbatim>\<open>"BUSY"\<close>, and the
  whole state is as it was: the lock, every account record, the notifications sent, the
  executor's invocations and the clock's readings.
\<close>

theorem local_contention_rejected:
  "isRunning w \<Longrightarrow>
     \<not> ok (fst (executeSession e i w)) \<and>
     message (fst (executeSession e i w)) = Some ''Bot is already running a session.'' \<and>
     message (fst (executeSession e i w)) \<noteq> Some ''BUSY'' \<and>
     snd (executeSession e i w) = w"
  by (simp add: executeSession_locked failure_def)

theorem local_contention_rejected_witness:
  "isRunning lockedWorld \<and>
   \<not> ok (fst (executeSession noonEnv ''1'' lockedWorld)) \<and>
   message (fst (executeSession noonEnv ''1'' lockedWorld)) \<noteq> Some ''BUSY'' \<and>
   snd (executeSession noonEnv ''1'' lockedWorld) = lockedWorld"
proof -
  have held: "isRunning lockedWorld"
    by (simp add: lockedWorld_def)
  from local_contention_rejected[OF held, of noonEnv "''1''"] held show ?thesis
    by simp
qed

section \<open>Failed sessions\<close>

lemma find_setStatusOfFirst:
  "find (\<lambda>a. acc_id a = i) (setStatusOfFirst i st None xs) =
     map_option (\<lambda>a. a\<lparr>status := st\<rparr>) (find (\<lambda>a. acc_id a = i) xs)"
  by (induction xs) auto

text \<open>
  C10. When the executor returns a failure whose reason is exactly \<^verbatim>\<open>"BUSY"\<close>, the
  orchestrator returns the result \<^verbatim>\<open>{ success: false, message: 'BUSY' }\<close>, and in the state
  it returns the record of that account has the status \<^verbatim>\<open>'error'\<close>, as after any other
  failure (its other fields are as before), the lock being released.
\<close>

theorem busy_failure_marks_error:
  assumes "\<not> isRunning w"
    and "find (\<lambda>a. acc_id a = i) (accounts w) = Some a"
    and "runSession e (length (sessions w)) (withCode e a) = Returned r"
    and "\<not> success r" and "reason r = Some ''BUSY''"
  shows "fst (executeSession e i w) = \<lparr>ok = False, message = Some ''BUSY''\<rparr> \<and>
    find (\<lambda>a. acc_id a = i) (accounts (snd (executeSession e i w))) = Some (a\<lparr>status := ''error''\<rparr>) \<and>
    \<not> isRunning (snd (executeSession e i w))"
  using assms by (simp add: executeSession_failed failure_def find_setStatusOfFirst)

theorem busy_failure_marks_error_witness:
  "\<not> isRunning threeWorld \<and>
   fst (executeSession busyEnv ''2'' (threeWorld\<lparr>sessions := [withCode busyEnv alice]\<rparr>)) = \<lparr>ok = False, message = Some ''BUSY''\<rparr> \<and>
   find (\<lambda>a. acc_id a = ''2'') (accounts (snd (executeSession busyEnv ''2'' (threeWorld\<lparr>sessions := [withCode busyEnv alice]\<rparr>))))
     = Some (bob\<lparr>status := ''error''\<rparr>)"
proof -
  let ?w = "threeWorld\<lparr>sessions := [withCode busyEnv alice]\<rparr>"
  have free: "\<not> isRunning ?w"
    by (simp add: threeWorld_def idleWorld_def)
  have found: "find (\<lambda>a. acc_id a = ''2'') (accounts ?w) = Some bob"
    by (simp add: threeWorld_def idleWorld_def alice_def bob_def)
  have ran: "runSession busyEnv (length (sessions ?w)) (withCode busyEnv bob) =
      Returned \<lparr>success = False, reason = Some ''BUSY''\<rparr>"
    by (simp add: busyEnv_def noonEnv_def)
  from busy_failure_marks_error[OF free found ran] free show ?thesis
    by (simp add: threeWorld_def idleWorld_def)
qed

text \<open>
  C4. When the executor returns an unsuccessful result for an account, the orchestrator
  leaves the store as it was but for that account's record, whose status becomes
  \<^verbatim>\<open>'error'\<close> while \<^verbatim>\<open>lastRun\<close> and every other field stay; the record is pending for a
  date exactly when it was before, so a tick that finds the account pending before the
  failure selects it again.
\<close>

theorem failed_session_keeps_lastRun:
  assumes "\<not> isRunning w"
    and "find (\<lambda>a. acc_id a = i) (accounts w) = Some a"
    and "runSession e (length (sessions w)) (withCode e a) = Returned r"
    and "\<not> success r"
  shows "\<exists>before after.
      accounts w = before @ a # after \<and>
      accounts (snd (executeSession e i w)) = before @ a\<lparr>status := ''error''\<rparr> # after \<and>
      (\<forall>today. isPending today (a\<lparr>status := ''error''\<rparr>) = isPending today a) \<and>
      (\<forall>today. isPending today a \<longrightarrow>
         a\<lparr>status := ''error''\<rparr> \<in> set (filter (isPending today) (accounts (snd (executeSession e i w)))))"
proof -
  from setStatusOfFirst_found[OF assms(2), of "''error''"] obtain before after where
    parts: "accounts w = before @ a # after"
      "setStatusOfFirst i ''error'' None (accounts w) = before @ a\<lparr>status := ''error''\<rparr> # after"
    by blast
  have after_run: "accounts (snd (executeSession e i w)) = before @ a\<lparr>status := ''error''\<rparr> # after"
    using assms parts(2) by (simp add: executeSession_failed)
  have same: "isPending today (a\<lparr>status := ''error''\<rparr>) = isPending today a" for today
    by (simp add: isPending_def)
  from parts(1) after_run same show ?thesis
    by auto
qed

theorem failed_session_keeps_lastRun_witness:
  "\<not> isRunning idleWorld \<and> find (\<lambda>a. acc_id a = ''1'') (accounts idleWorld) = Some alice \<and>
   isPending 0 alice \<and>
   (\<exists>before after.
      accounts idleWorld = before @ alice # after \<and>
      accounts (snd (executeSession failingEnv ''1'' idleWorld)) = before @ alice\<lparr>status := ''error''\<rparr> # after \<and>
      alice\<lparr>status := ''error''\<rparr> \<in> set (filter (isPending 0) (accounts (snd (executeSession failingEnv ''1'' idleWorld)))))"
proof -
  have free: "\<not> isRunning idleWorld"
    by (simp add: idleWorld_def)
  have found: "find (\<lambda>a. acc_id a = ''1'') (accounts idleWorld) = Some alice"
    by (simp add: idleWorld_def alice_def)
  have ran: "runSession failingEnv (length (sessions idleWorld)) (withCode failingEnv alice) =
      Returned \<lparr>success = False, reason = Some ''Invalid restore code''\<rparr>"
    by (simp add: failingEnv_def noonEnv_def)
  have pending: "isPending 0 alice"
    by (simp add: isPending_def alice_def)
  from failed_session_keeps_lastRun[OF free found ran] pending free found show ?thesis
    by auto
qed

section \<open>The lock\<close>

text \<open>
  C6, as amended. An invocation that finds the lock free returns with the lock free on
  every path (success, failure, account not found, a fault thrown by the executor), and a
  fault thrown by the executor becomes the failure result whose message is the fault's.
  (An invocation that finds the lock held leaves it held, see C9.)
\<close>

theorem lock_released:
  assumes "\<not> isRunning w"
  shows "\<not> isRunning (snd (executeSession e i w)) \<and>
    (\<forall>a msg. find (\<lambda>a. acc_id a = i) (accounts w) = Some a \<longrightarrow>
        runSession e (length (sessions w)) (withCode e a) = Threw msg \<longrightarrow>
        fst (executeSession e i w) = \<lparr>ok = False, message = Some msg\<rparr>)"
proof
  show "\<not> isRunning (snd (executeSession e i w))"
  proof (cases rule: executeSession_paths[where w=w and i=i and e=e])
    case locked
    with assms show ?thesis by simp
  next
    case not_found
    then show ?thesis by (simp add: executeSession_not_found)
  next
    case (threw a msg)
    then show ?thesis by (simp add: executeSession_threw)
  next
    case (succeeded a r)
    then show ?thesis by (simp add: executeSession_succeeded)
  next
    case (failed a r)
    then show ?thesis by (simp add: executeSession_failed)
  qed
next
  show "\<forall>a msg. find (\<lambda>a. acc_id a = i) (accounts w) = Some a \<longrightarrow>
        runSession e (length (sessions w)) (withCode e a) = Threw msg \<longrightarrow>
        fst (executeSession e i w) = \<lparr>ok = False, message = Some msg\<rparr>"
    using assms by (simp add: executeSession_threw failure_def)
qed

theorem lock_released_witness:
  "\<not> isRunning idleWorld \<and>
   \<not> isRunning (snd (executeSession throwingEnv ''1'' idleWorld)) \<and>
   fst (executeSession throwingEnv ''1'' idleWorld) = \<lparr>ok = False, message = Some ''Navigation timeout''\<rparr>"
proof -
  have free: "\<not> isRunning idleWorld"
    by (simp add: idleWorld_def)
  have found: "find (\<lambda>a. acc_id a = ''1'') (accounts idleWorld) = Some alice"
    by (simp add: idleWorld_def alice_def)
  have ran: "runSession throwingEnv (length (sessions idleWorld)) (withCode throwingEnv alice) =
      Threw ''Navigation timeout''"
    by (simp add: throwingEnv_def noonEnv_def)
  from lock_released[OF free, of throwingEnv "''1''"] found ran free show ?thesis
    by simp
qed

text \<open>
  C6 as stated fails: an invocation made while the lock is held returns with the lock
  still held.
\<close>

theorem lock_still_held_counterexample:
  "isRunning (snd (executeSession noonEnv ''1'' lockedWorld))"
  by (simp add: executeSession_locked lockedWorld_def)

section \<open>Records left running\<close>

text \<open>
  C2, the code at the failing input. The executor throws for alice: the invocation returns
  with the lock released and alice's status still \<^verbatim>\<open>'running'\<close> (the \<^verbatim>\<open>catch\<close> block does
  not reset it). The next invocation, for bob, throws too, and two records have the status
  \<^verbatim>\<open>'running'\<close>; one tick of the scheduler over both accounts ends the same way.
\<close>

theorem stale_running_after_fault:
  "\<not> isRunning (snd (executeSession throwingEnv ''1'' idleWorld)) \<and>
   map status (accounts (snd (executeSession throwingEnv ''1'' idleWorld))) = [''running'', ''idle''] \<and>
   map status (accounts (snd (executeSession throwingEnv ''2'' (snd (executeSession throwingEnv ''1'' idleWorld)))))
     = [''running'', ''running''] \<and>
   runningCount (snd (executeSession throwingEnv ''2'' (snd (executeSession throwingEnv ''1'' idleWorld)))) = 2 \<and>
   runningCount (snd (checkAndRun throwingEnv idleWorld)) = 2 \<and>
   \<not> isRunning (snd (checkAndRun throwingEnv idleWorld))"
  by code_simp

section \<open>The evening half of a schedule across midnight\<close>

text \<open>
  The re-check of the loop compares the hour with \<^verbatim>\<open>endHour\<close> alone: with a schedule
  across midnight (\<open>en \<le> s\<close>) and the hour in the evening half (\<open>s \<le> h\<close>), it stops the
  loop at its first candidate, whatever the candidates.
\<close>

lemma recheck_stops_evening:
  "en \<le> s \<Longrightarrow> s \<le> getHours e (clock e (dateReads w)) \<Longrightarrow>
   runBatch e (Some en) (c # rest) w = ([], w\<lparr>dateReads := Suc (dateReads w)\<rparr>)"
  by (simp add: newDate_def jsGreaterEq_def)

text \<open>
  C1, the code at the failing input. The schedule is 22:00 to 08:00 and the hour is 23: the
  tick is active, alice is pending and the lock is free, yet the loop's check
  \<^verbatim>\<open>new Date().getHours() >= endHour\<close> (23 >= 8) stops the batch before the first
  candidate: no candidate is handed to the orchestrator and the executor is not called.
\<close>

theorem evening_batch_never_starts:
  "getHours lateEnv (clock lateEnv 0) = 23 \<and>
   isActiveTime 23 (parseInt (splitColonHead ''22:00'')) (parseInt (splitColonHead ''08:00'')) \<and>
   filter (isPending (isoDate (clock lateEnv 1))) (accounts nightWorld) = [alice] \<and>
   \<not> isRunning nightWorld \<and>
   checkAndRun lateEnv nightWorld = ([], nightWorld\<lparr>dateReads := 3\<rparr>) \<and>
   sessions (snd (checkAndRun lateEnv nightWorld)) = []"
  by code_simp

section \<open>The time window\<close>

text \<open>
  C5. On a tick that finds the lock free, with the schedule's hours read as \<open>s\<close> and \<open>en\<close>
  and \<open>h\<close> the local hour of the clock, the variable \<^verbatim>\<open>isActiveTime\<close> is: for \<open>s < en\<close>,
  true exactly when \<open>s \<le> h < en\<close> (the hour \<open>en\<close> itself is inactive); otherwise true
  exactly when \<open>h \<ge> s\<close> or \<open>h < en\<close>. The tick goes on to the pending accounts when it
  is true and ends there when it is false.
\<close>

theorem active_window:
  assumes "\<not> isRunning w"
    and "parseInt (splitColonHead (scheduleStart (getSchedule w))) = Some s"
    and "parseInt (splitColonHead (scheduleEnd (getSchedule w))) = Some en"
    and "h = getHours e (clock e (dateReads w))"
  shows "isActiveTime h (Some s) (Some en) = (if s < en then s \<le> h \<and> h < en else s \<le> h \<or> h < en) \<and>
    checkAndRun e w =
      (if (if s < en then s \<le> h \<and> h < en else s \<le> h \<or> h < en)
       then runPending e (Some en) (w\<lparr>dateReads := Suc (dateReads w)\<rparr>)
       else ([], w\<lparr>dateReads := Suc (dateReads w)\<rparr>))"
proof -
  have window: "isActiveTime h (Some s) (Some en) = (if s < en then s \<le> h \<and> h < en else s \<le> h \<or> h < en)"
    by (simp add: isActiveTime_def jsLess_def jsGreaterEq_def)
  have sched: "getSchedule (w\<lparr>dateReads := Suc (dateReads w)\<rparr>) = getSchedule w"
    by (simp add: getSchedule_def)
  have "checkAndRun e w =
      (if isActiveTime h (Some s) (Some en)
       then runPending e (Some en) (w\<lparr>dateReads := Suc (dateReads w)\<rparr>)
       else ([], w\<lparr>dateReads := Suc (dateReads w)\<rparr>))"
    using assms sched by (simp add: checkAndRun_def newDate_def)
  with window show ?thesis
    by simp
qed

lemma parse_22: "parseInt (splitColonHead ''22:00'') = Some 22"
  by (simp add: parseInt_def splitColonHead_def isWhiteSpace_def isDigitOf_def digitValue_def)

lemma parse_08: "parseInt (splitColonHead ''08:00'') = Some 8"
  by (simp add: parseInt_def splitColonHead_def isWhiteSpace_def isDigitOf_def digitValue_def)

theorem active_window_witness:
  "\<not> isRunning nightWorld \<and>
   getHours lateEnv (clock lateEnv (dateReads nightWorld)) = 23 \<and>
   isActiveTime 23 (Some 22) (Some 8) \<and>
   checkAndRun lateEnv nightWorld =
     runPending lateEnv (Some 8) (nightWorld\<lparr>dateReads := Suc (dateReads nightWorld)\<rparr>) \<and>
   getHours morningEnv (clock morningEnv (dateReads nightWorld)) = 9 \<and>
   \<not> isActiveTime 9 (Some 22) (Some 8) \<and>
   checkAndRun morningEnv nightWorld = ([], nightWorld\<lparr>dateReads := Suc (dateReads nightWorld)\<rparr>)"
proof -
  have free: "\<not> isRunning nightWorld"
    by (simp add: nightWorld_def idleWorld_def)
  have from_hour: "parseInt (splitColonHead (scheduleStart (getSchedule nightWorld))) = Some 22"
    by (simp add: nightWorld_def idleWorld_def getSchedule_def parse_22)
  have to_hour: "parseInt (splitColonHead (scheduleEnd (getSchedule nightWorld))) = Some 8"
    by (simp add: nightWorld_def idleWorld_def getSchedule_def parse_08)
  have late: "23 = getHours lateEnv (clock lateEnv (dateReads nightWorld))"
    by (simp add: getHours_def lateEnv_def noonEnv_def)
  have early: "9 = getHours morningEnv (clock morningEnv (dateReads nightWorld))"
    by (simp add: getHours_def morningEnv_def noonEnv_def)
  from active_window[OF free from_hour to_hour late] active_window[OF free from_hour to_hour early]
    free late early show ?thesis
    by simp
qed

section \<open>The pending set\<close>

lemma isPending_iff:
  "isPending today a = (lastRun a = None \<or> (\<exists>t. lastRun a = Some t \<and> isoDate t \<noteq> today))"
  by (cases "lastRun a") (simp_all add: isPending_def)

text \<open>
  C7, as amended. On a tick that finds the lock free and the window open, the batch runs
  over exactly the accounts, in store order, whose \<^verbatim>\<open>lastRun\<close> is null or falls on a UTC
  calendar date other than the current UTC calendar date (the date of \<^verbatim>\<open>toISOString\<close>);
  an account whose \<^verbatim>\<open>lastRun\<close> falls on the current UTC date is left out, and with no
  pending account the tick ends.
\<close>

theorem pending_set_utc:
  assumes "\<not> isRunning w"
    and "endHour = parseInt (splitColonHead (scheduleEnd (getSchedule w)))"
    and "isActiveTime (getHours e (clock e (dateReads w)))
           (parseInt (splitColonHead (scheduleStart (getSchedule w)))) endHour"
    and "today = isoDate (clock e (Suc (dateReads w)))"
    and "pend = filter (\<lambda>a. lastRun a = None \<or> (\<exists>t. lastRun a = Some t \<and> isoDate t \<noteq> today)) (accounts w)"
  shows "checkAndRun e w =
      (if pend = [] then ([], w\<lparr>dateReads := Suc (Suc (dateReads w))\<rparr>)
       else runBatch e endHour pend (w\<lparr>dateReads := Suc (Suc (dateReads w))\<rparr>))"
proof -
  have sched: "getSchedule (w\<lparr>dateReads := Suc (dateReads w)\<rparr>) = getSchedule w"
    by (simp add: getSchedule_def)
  have sel: "filter (isPending today) (accounts w) = pend"
    unfolding assms(5) by (rule filter_cong) (simp_all add: isPending_iff)
  have "checkAndRun e w = runPending e endHour (w\<lparr>dateReads := Suc (dateReads w)\<rparr>)"
    using assms(1,2,3) sched by (simp add: checkAndRun_def newDate_def)
  also have "\<dots> = (if pend = [] then ([], w\<lparr>dateReads := Suc (Suc (dateReads w))\<rparr>)
       else runBatch e endHour pend (w\<lparr>dateReads := Suc (Suc (dateReads w))\<rparr>))"
    using sel assms(4) by (simp add: runPending_def newDate_def getAccounts_def)
  finally show ?thesis .
qed

theorem pending_set_utc_witness:
  "\<not> isRunning idleWorld \<and>
   isActiveTime (getHours noonEnv (clock noonEnv (dateReads idleWorld))) (Some 10) (Some 20) \<and>
   checkAndRun noonEnv (idleWorld\<lparr>accounts := [alice, bob\<lparr>lastRun := Some 36000000\<rparr>]\<rparr>) =
     runBatch noonEnv (Some 20) [alice]
       (idleWorld\<lparr>accounts := [alice, bob\<lparr>lastRun := Some 36000000\<rparr>],
          dateReads := Suc (Suc (dateReads idleWorld))\<rparr>)"
proof -
  let ?w = "idleWorld\<lparr>accounts := [alice, bob\<lparr>lastRun := Some 36000000\<rparr>]\<rparr>"
  have free: "\<not> isRunning ?w" "\<not> isRunning idleWorld"
    by (simp_all add: idleWorld_def)
  have ending: "Some 20 = parseInt (splitColonHead (scheduleEnd (getSchedule ?w)))"
    by (simp add: idleWorld_def getSchedule_def defaultSchedule_def parseInt_def splitColonHead_def
        isWhiteSpace_def isDigitOf_def digitValue_def)
  have starting: "parseInt (splitColonHead (scheduleStart (getSchedule ?w))) = Some 10"
    by (simp add: idleWorld_def getSchedule_def defaultSchedule_def parseInt_def splitColonHead_def
        isWhiteSpace_def isDigitOf_def digitValue_def)
  have active: "isActiveTime (getHours noonEnv (clock noonEnv (dateReads ?w))) (Some 10) (Some 20)"
    by (simp add: isActiveTime_def jsLess_def jsGreaterEq_def getHours_def noonEnv_def)
  have today: "0 = isoDate (clock noonEnv (Suc (dateReads ?w)))"
    by (simp add: isoDate_def noonEnv_def)
  have pend: "[alice] = filter (\<lambda>a. lastRun a = None \<or> (\<exists>t. lastRun a = Some t \<and> isoDate t \<noteq> 0))
      (accounts ?w)"
    by (simp add: alice_def bob_def isoDate_def)
  from pending_set_utc[OF free(1) ending active[folded starting] today pend] free(2) active
  show ?thesis
    by (simp del: runBatch.simps)
qed

text \<open>
  C7 as stated fails: on Indian time, at 00:30 local of the second day, an account that
  last ran at 23:30 local of the first day has a \<^verbatim>\<open>lastRun\<close> on another local date than
  today's, so it is pending in the specification's words; both instants are on the same
  UTC date, so the code's pending set is empty and the tick runs nothing.
\<close>

theorem pending_local_date_counterexample:
  "lastRun (hd (accounts istWorld)) = Some 64800000 \<and>
   localDate istEnv 64800000 = 0 \<and>
   localDate istEnv (clock istEnv 1) = 1 \<and>
   getHours istEnv (clock istEnv 0) = 0 \<and>
   length (filter (isPendingLocal istEnv (clock istEnv 1)) (accounts istWorld)) = 1 \<and>
   filter (isPending (isoDate (clock istEnv 1))) (accounts istWorld) = [] \<and>
   checkAndRun istEnv istWorld = ([], istWorld\<lparr>dateReads := 2\<rparr>)"
  by code_simp

section \<open>The daily report\<close>

lemma ranOn_iff: "ranOn today a = (\<exists>t. lastRun a = Some t \<and> isoDate t = today)"
  by (cases "lastRun a") (simp_all add: ranOn_def)

lemma sortAccounts_filters:
  "sortAccounts today xs (successful, failed, pending) =
     (successful @ map name (filter (\<lambda>a. ranOn today a \<and> status a \<noteq> ''error'') xs),
      failed @ map name (filter (\<lambda>a. status a = ''error'') xs),
      pending @ map name (filter (\<lambda>a. \<not> ranOn today a \<and> status a \<noteq> ''error'') xs))"
  by (induction xs arbitrary: successful failed pending) auto

text \<open>
  C8, as amended. The reporter sends one notification whose three lists of names are the
  names of the accounts, in store order, that are Completed (\<^verbatim>\<open>lastRun\<close> on today's UTC
  calendar date, the day of \<^verbatim>\<open>toISOString\<close>, that is the instant divided by the 86400000
  milliseconds of a day, and status not \<^verbatim>\<open>'error'\<close>), Failed (status \<^verbatim>\<open>'error'\<close>, whatever
  the \<^verbatim>\<open>lastRun\<close>) and Not run (the others); every account is in exactly one of the three
  categories; and the account records are as they were.
\<close>

theorem report_partition:
  fixes e :: env and w :: world
  defines "today \<equiv> clock e (dateReads w) div 86400000"
  defines "isCompleted \<equiv>
    (\<lambda>a. (\<exists>t. lastRun a = Some t \<and> t div 86400000 = today) \<and> status a \<noteq> ''error'')"
  defines "isFailed \<equiv> (\<lambda>a. status a = ''error'')"
  defines "isNotRun \<equiv> (\<lambda>a. \<not> isCompleted a \<and> \<not> isFailed a)"
  shows "generateDailyReport e w =
      w\<lparr>dateReads := Suc (dateReads w),
        sent := sent w @
          [(DailyReport today (length (filter isCompleted (accounts w))) (length (accounts w))
              (map name (filter isCompleted (accounts w)))
              (map name (filter isFailed (accounts w)))
              (map name (filter isNotRun (accounts w))), ''info'')]\<rparr> \<and>
    accounts (generateDailyReport e w) = accounts w \<and>
    (\<forall>a. (isCompleted a \<and> \<not> isFailed a \<and> \<not> isNotRun a) \<or>
         (isFailed a \<and> \<not> isCompleted a \<and> \<not> isNotRun a) \<or>
         (isNotRun a \<and> \<not> isCompleted a \<and> \<not> isFailed a))"
proof -
  have day: "isoDate (clock e (dateReads w)) = today"
    by (simp add: isoDate_def today_def)
  have c: "(\<lambda>a. ranOn today a \<and> status a \<noteq> ''error'') = isCompleted"
    by (simp add: isCompleted_def ranOn_iff isoDate_def)
  have n: "(\<lambda>a. \<not> ranOn today a \<and> status a \<noteq> ''error'') = isNotRun"
    by (auto simp add: isNotRun_def isCompleted_def isFailed_def ranOn_iff isoDate_def)
  have sorted: "sortAccounts today (accounts w) ([], [], []) =
      (map name (filter isCompleted (accounts w)), map name (filter isFailed (accounts w)),
       map name (filter isNotRun (accounts w)))"
    by (simp add: sortAccounts_filters c n isFailed_def)
  have report: "generateDailyReport e w =
      w\<lparr>dateReads := Suc (dateReads w),
        sent := sent w @
          [(DailyReport today (length (filter isCompleted (accounts w))) (length (accounts w))
              (map name (filter isCompleted (accounts w)))
              (map name (filter isFailed (accounts w)))
              (map name (filter isNotRun (accounts w))), ''info'')]\<rparr>"
    using sorted day
    by (simp add: generateDailyReport_def newDate_def getAccounts_def sendLog_def Let_def)
  have split: "(isCompleted a \<and> \<not> isFailed a \<and> \<not> isNotRun a) \<or>
         (isFailed a \<and> \<not> isCompleted a \<and> \<not> isNotRun a) \<or>
         (isNotRun a \<and> \<not> isCompleted a \<and> \<not> isFailed a)" for a
    by (auto simp add: isNotRun_def isCompleted_def isFailed_def)
  from report split show ?thesis
    by simp
qed

text \<open>
  The report of the second UTC day: alice, who ran on that day, is Completed; bob, who ran
  on that day and failed, is Failed; carol, whose last run is of the day before, is Not run.
\<close>

theorem report_partition_witness:
  "generateDailyReport hawaiiEnv reportWorld =
   reportWorld\<lparr>dateReads := Suc 0,
     sent := [(DailyReport 1 1 3 [''alice''] [''bob''] [''carol''], ''info'')]\<rparr>"
  using report_partition[of hawaiiEnv reportWorld]
  by (simp add: reportWorld_def idleWorld_def hawaiiEnv_def noonEnv_def alice_def bob_def carol_def)

text \<open>
  C8 as stated, with the calendar date of \<^verbatim>\<open>lastRun\<close> taken in local time as the
  specification takes it, fails: on Hawaiian time the report runs at 14:30 local and the
  account ran at 10:00 local of the same day with status \<^verbatim>\<open>'idle'\<close>, so it is Completed in
  the specification's words; the two instants are on different UTC days, and the report
  lists it under Not run.
\<close>

theorem report_local_date_counterexample:
  "map lastRun (accounts hawaiiWorld) = [Some 72000000] \<and>
   map status (accounts hawaiiWorld) = [''idle''] \<and>
   getHours hawaiiEnv 72000000 = 10 \<and>
   getHours hawaiiEnv (clock hawaiiEnv 0) = 14 \<and>
   localDate hawaiiEnv 72000000 = 0 \<and>
   localDate hawaiiEnv (clock hawaiiEnv 0) = 0 \<and>
   map name (filter (isCompletedLocal hawaiiEnv (clock hawaiiEnv 0)) (accounts hawaiiWorld)) = [''alice''] \<and>
   sent (generateDailyReport hawaiiEnv hawaiiWorld) =
     [(DailyReport 1 0 1 [] [] [''alice''], ''info'')]"
  by code_simp

section \<open>The batch and the BUSY result\<close>

text \<open>One round of the loop, with the clock read and the invocation named.\<close>

lemma runBatch_Cons:
  "runBatch e endHour (c # rest) w =
     (if jsGreaterEq (Some (getHours e (clock e (dateReads w)))) endHour
      then ([], w\<lparr>dateReads := Suc (dateReads w)\<rparr>)
      else if busyResult (fst (executeSession e (acc_id c) (w\<lparr>dateReads := Suc (dateReads w)\<rparr>)))
      then ([(c, fst (executeSession e (acc_id c) (w\<lparr>dateReads := Suc (dateReads w)\<rparr>)))],
            snd (executeSession e (acc_id c) (w\<lparr>dateReads := Suc (dateReads w)\<rparr>)))
      else ((c, fst (executeSession e (acc_id c) (w\<lparr>dateReads := Suc (dateReads w)\<rparr>))) #
              fst (runBatch e endHour rest (snd (executeSession e (acc_id c) (w\<lparr>dateReads := Suc (dateReads w)\<rparr>)))),
            snd (runBatch e endHour rest (snd (executeSession e (acc_id c) (w\<lparr>dateReads := Suc (dateReads w)\<rparr>)))))) "
  by (simp add: newDate_def Let_def busyResult_def split: prod.splits)

declare runBatch.simps(2) [simp del]

text \<open>What one invocation does to the executor's record and to the store.\<close>

lemma executeSession_sessions:
  "\<exists>new. sessions (snd (executeSession e i w)) = sessions w @ new \<and> subseq (map acc_id new) [i]"
proof (cases rule: executeSession_paths[where w=w and i=i and e=e])
  case locked
  then show ?thesis by (simp add: executeSession_locked)
next
  case not_found
  then show ?thesis by (simp add: executeSession_not_found)
next
  case (threw a msg)
  from find_acc_id[OF threw(2)] have "subseq (map acc_id [withCode e a]) [i]" by simp
  with threw show ?thesis by (simp add: executeSession_threw)
next
  case (succeeded a r)
  from find_acc_id[OF succeeded(2)] have "subseq (map acc_id [withCode e a]) [i]" by simp
  with succeeded show ?thesis by (simp add: executeSession_succeeded)
next
  case (failed a r)
  from find_acc_id[OF failed(2)] have "subseq (map acc_id [withCode e a]) [i]" by simp
  with failed show ?thesis by (simp add: executeSession_failed)
qed

lemma executeSession_accounts:
  "\<exists>st lr. (accounts (snd (executeSession e i w)) = accounts w \<or>
      accounts (snd (executeSession e i w)) = setStatusOfFirst i st lr (accounts w)) \<and>
     (ok (fst (executeSession e i w)) \<or> lr = None)"
proof (cases rule: executeSession_paths[where w=w and i=i and e=e])
  case locked
  then show ?thesis by (simp add: executeSession_locked)
next
  case not_found
  then show ?thesis by (simp add: executeSession_not_found)
next
  case (threw a msg)
  then have "accounts (snd (executeSession e i w)) = setStatusOfFirst i ''running'' None (accounts w)"
    by (simp add: executeSession_threw)
  then show ?thesis by blast
next
  case (succeeded a r)
  then have "accounts (snd (executeSession e i w)) =
      setStatusOfFirst i ''idle'' (Some (clock e (dateReads w))) (accounts w)"
    and "ok (fst (executeSession e i w))"
    by (simp_all add: executeSession_succeeded)
  then show ?thesis by blast
next
  case (failed a r)
  then have "accounts (snd (executeSession e i w)) = setStatusOfFirst i ''error'' None (accounts w)"
    by (simp add: executeSession_failed)
  then show ?thesis by blast
qed

text \<open>
  An update by the id of a record leaves every record behind it alone: a sequence of
  records found in the store in order, the updated one first, is still found there.
\<close>

lemma setStatusOfFirst_subseq:
  "subseq (c # rest) xs \<Longrightarrow>
   \<exists>c'. subseq (c' # rest) (setStatusOfFirst (acc_id c) st lr xs) \<and>
     (c' = c \<or> c' = (case lr of None \<Rightarrow> c\<lparr>status := st\<rparr> | Some t \<Rightarrow> c\<lparr>status := st, lastRun := Some t\<rparr>))"
proof (induction xs)
  case Nil
  then show ?case by simp
next
  case (Cons x xs)
  show ?case
  proof (cases "acc_id x = acc_id c")
    case same: True
    define x' where "x' = (case lr of None \<Rightarrow> x\<lparr>status := st\<rparr> | Some t \<Rightarrow> x\<lparr>status := st, lastRun := Some t\<rparr>)"
    from same have step: "setStatusOfFirst (acc_id c) st lr (x # xs) = x' # xs"
      by (simp add: x'_def)
    show ?thesis
    proof (cases "x = c")
      case True
      with Cons.prems have "subseq rest xs" by simp
      then have "subseq (x' # rest) (x' # xs)" by simp
      moreover from True have "x' = (case lr of None \<Rightarrow> c\<lparr>status := st\<rparr> | Some t \<Rightarrow> c\<lparr>status := st, lastRun := Some t\<rparr>)"
        by (cases lr) (simp_all add: x'_def)
      ultimately show ?thesis unfolding step by blast
    next
      case False
      with Cons.prems have "subseq (c # rest) xs" by simp
      then have "subseq (c # rest) (x' # xs)" by (rule list_emb_Cons)
      then show ?thesis unfolding step by blast
    qed
  next
    case False
    then have "x \<noteq> c" by auto
    with Cons.prems have "subseq (c # rest) xs" by simp
    from Cons.IH[OF this] obtain c' where
      "subseq (c' # rest) (setStatusOfFirst (acc_id c) st lr xs)"
      "c' = c \<or> c' = (case lr of None \<Rightarrow> c\<lparr>status := st\<rparr> | Some t \<Rightarrow> c\<lparr>status := st, lastRun := Some t\<rparr>)"
      by blast
    note c' = this
    from False have step: "setStatusOfFirst (acc_id c) st lr (x # xs) = x # setStatusOfFirst (acc_id c) st lr xs"
      by simp
    from c'(1) have "subseq (c' # rest) (x # setStatusOfFirst (acc_id c) st lr xs)"
      by (rule list_emb_Cons)
    with c'(2) show ?thesis unfolding step by blast
  qed
qed

lemma executeSession_subseq:
  assumes "subseq (c # rest) (accounts w)"
  shows "\<exists>c'. subseq (c' # rest) (accounts (snd (executeSession e (acc_id c) w))) \<and>
     (ok (fst (executeSession e (acc_id c) w)) \<or> (\<exists>st. c' = c\<lparr>status := st\<rparr>))"
proof -
  from executeSession_accounts[of e "acc_id c" w] obtain st lr where
    eff: "accounts (snd (executeSession e (acc_id c) w)) = accounts w \<or>
      accounts (snd (executeSession e (acc_id c) w)) = setStatusOfFirst (acc_id c) st lr (accounts w)"
    and lr: "ok (fst (executeSession e (acc_id c) w)) \<or> lr = None"
    by blast
  have keep: "c = c\<lparr>status := status c\<rparr>" by simp
  from eff show ?thesis
  proof
    assume "accounts (snd (executeSession e (acc_id c) w)) = accounts w"
    with assms keep show ?thesis by metis
  next
    assume upd: "accounts (snd (executeSession e (acc_id c) w)) = setStatusOfFirst (acc_id c) st lr (accounts w)"
    from setStatusOfFirst_subseq[OF assms, of st lr] obtain c' where
      c': "subseq (c' # rest) (setStatusOfFirst (acc_id c) st lr (accounts w))"
      "c' = c \<or> c' = (case lr of None \<Rightarrow> c\<lparr>status := st\<rparr> | Some t \<Rightarrow> c\<lparr>status := st, lastRun := Some t\<rparr>)"
      by blast
    show ?thesis
    proof (cases "ok (fst (executeSession e (acc_id c) w))")
      case True
      with c'(1) upd show ?thesis by auto
    next
      case False
      with lr have "lr = None" by simp
      with c'(2) have "c' = c\<lparr>status := status c\<rparr> \<or> c' = c\<lparr>status := st\<rparr>" by simp
      then have "\<exists>st. c' = c\<lparr>status := st\<rparr>" by blast
      with c'(1) upd show ?thesis by auto
    qed
  qed
qed


text \<open>The batch: which candidates were attempted, and where a BUSY result can stand.\<close>

lemma runBatch_attempts:
  "map fst (fst (runBatch e endHour pend w)) = take (length (fst (runBatch e endHour pend w))) pend"
proof (induction pend arbitrary: w)
  case Nil
  show ?case by simp
next
  case (Cons c rest)
  show ?case
    unfolding runBatch_Cons using Cons.IH by simp
qed

lemma runBatch_busy_last:
  assumes "k < length (fst (runBatch e endHour pend w))"
    and "busyResult (snd (fst (runBatch e endHour pend w) ! k))"
  shows "length (fst (runBatch e endHour pend w)) = Suc k"
  using assms
proof (induction pend arbitrary: w k)
  case Nil
  then show ?case by simp
next
  case (Cons c rest)
  let ?w1 = "w\<lparr>dateReads := Suc (dateReads w)\<rparr>"
  let ?res = "fst (executeSession e (acc_id c) ?w1)"
  let ?w2 = "snd (executeSession e (acc_id c) ?w1)"
  show ?case
  proof (cases "jsGreaterEq (Some (getHours e (clock e (dateReads w)))) endHour")
    case True
    with Cons.prems(1) show ?thesis by (simp add: runBatch_Cons)
  next
    case open_hours: False
    show ?thesis
    proof (cases "busyResult ?res")
      case True
      with open_hours Cons.prems(1) show ?thesis by (simp add: runBatch_Cons)
    next
      case False
      with open_hours have unfold: "fst (runBatch e endHour (c # rest) w) =
          (c, ?res) # fst (runBatch e endHour rest ?w2)"
        by (simp add: runBatch_Cons)
      show ?thesis
      proof (cases k)
        case 0
        with Cons.prems(2) unfold False show ?thesis by simp
      next
        case (Suc j)
        with Cons.prems unfold have "j < length (fst (runBatch e endHour rest ?w2))"
          "busyResult (snd (fst (runBatch e endHour rest ?w2) ! j))"
          by simp_all
        from Cons.IH[OF this] Suc unfold show ?thesis by simp
      qed
    qed
  qed
qed

lemma runBatch_sessions:
  "\<exists>new. sessions (snd (runBatch e endHour pend w)) = sessions w @ new \<and>
     subseq (map acc_id new) (map acc_id (take (length (fst (runBatch e endHour pend w))) pend))"
proof (induction pend arbitrary: w)
  case Nil
  show ?case by simp
next
  case (Cons c rest)
  let ?w1 = "w\<lparr>dateReads := Suc (dateReads w)\<rparr>"
  let ?res = "fst (executeSession e (acc_id c) ?w1)"
  let ?w2 = "snd (executeSession e (acc_id c) ?w1)"
  from executeSession_sessions[of e "acc_id c" ?w1] obtain first where
    first: "sessions ?w2 = sessions w @ first" "subseq (map acc_id first) [acc_id c]"
    by auto
  show ?case
  proof (cases "jsGreaterEq (Some (getHours e (clock e (dateReads w)))) endHour")
    case True
    then show ?thesis by (simp add: runBatch_Cons)
  next
    case open_hours: False
    show ?thesis
    proof (cases "busyResult ?res")
      case True
      with open_hours first show ?thesis by (simp add: runBatch_Cons)
    next
      case False
      from Cons.IH[of ?w2] obtain later where
        later: "sessions (snd (runBatch e endHour rest ?w2)) = sessions ?w2 @ later"
        "subseq (map acc_id later) (map acc_id (take (length (fst (runBatch e endHour rest ?w2))) rest))"
        by blast
      from first(2) later(2) have "subseq (map acc_id first @ map acc_id later)
          ([acc_id c] @ map acc_id (take (length (fst (runBatch e endHour rest ?w2))) rest))"
        by (rule list_emb_append_mono)
      with open_hours False first(1) later(1) show ?thesis
        by (simp add: runBatch_Cons)
    qed
  qed
qed

lemma runBatch_store:
  assumes "subseq pend (accounts w)"
    and "k < length (fst (runBatch e endHour pend w))"
    and "busyResult (snd (fst (runBatch e endHour pend w) ! k))"
  shows "\<exists>c'. (\<exists>st. c' = (pend ! k)\<lparr>status := st\<rparr>) \<and>
     subseq (c' # drop (Suc k) pend) (accounts (snd (runBatch e endHour pend w)))"
  using assms
proof (induction pend arbitrary: w k)
  case Nil
  then show ?case by simp
next
  case (Cons c rest)
  let ?w1 = "w\<lparr>dateReads := Suc (dateReads w)\<rparr>"
  let ?res = "fst (executeSession e (acc_id c) ?w1)"
  let ?w2 = "snd (executeSession e (acc_id c) ?w1)"
  from Cons.prems(1) have "subseq (c # rest) (accounts ?w1)" by simp
  from executeSession_subseq[OF this, of e] obtain c' where
    c': "subseq (c' # rest) (accounts ?w2)" "ok ?res \<or> (\<exists>st. c' = c\<lparr>status := st\<rparr>)"
    by blast
  show ?case
  proof (cases "jsGreaterEq (Some (getHours e (clock e (dateReads w)))) endHour")
    case True
    with Cons.prems(2) show ?thesis by (simp add: runBatch_Cons)
  next
    case open_hours: False
    show ?thesis
    proof (cases "busyResult ?res")
      case True
      with open_hours Cons.prems(2) have "k = 0" by (simp add: runBatch_Cons)
      moreover from True have "\<not> ok ?res" by (simp add: busyResult_def)
      ultimately show ?thesis using True open_hours c' by (auto simp add: runBatch_Cons)
    next
      case False
      with open_hours have unfold: "fst (runBatch e endHour (c # rest) w) =
          (c, ?res) # fst (runBatch e endHour rest ?w2)"
        "snd (runBatch e endHour (c # rest) w) = snd (runBatch e endHour rest ?w2)"
        by (simp_all add: runBatch_Cons)
      show ?thesis
      proof (cases k)
        case 0
        with Cons.prems(3) unfold False show ?thesis by simp
      next
        case (Suc j)
        from c'(1) have inv: "subseq rest (accounts ?w2)" by (rule subseq_Cons')
        from Suc Cons.prems unfold have "j < length (fst (runBatch e endHour rest ?w2))"
          "busyResult (snd (fst (runBatch e endHour rest ?w2) ! j))"
          by simp_all
        from Cons.IH[OF inv this] Suc unfold(2) show ?thesis by simp
      qed
    qed
  qed
qed

lemma isPending_status [simp]: "isPending today (a\<lparr>status := st\<rparr>) = isPending today a"
  by (simp add: isPending_def)

text \<open>
  C3. If on a tick the \<open>k\<close>-th candidate handed to the orchestrator yields the failure
  with the reason \<^verbatim>\<open>"BUSY"\<close>, then it is the last one handed over: the candidates tried
  are the first \<open>k + 1\<close> pending accounts, the executor was invoked during the tick only
  for (some of) those, in order, and after the tick the store still holds, in order, the
  record of the BUSY candidate (all fields but the status as before) and the unchanged
  records of every later candidate, each of them pending for the tick's date.
\<close>

theorem busy_stops_batch:
  assumes "checkAndRun e w = (atts, w')"
    and "k < length atts"
    and "\<not> ok (snd (atts ! k))" and "message (snd (atts ! k)) = Some ''BUSY''"
    and "today = isoDate (clock e (Suc (dateReads w)))"
    and "pend = filter (isPending today) (accounts w)"
  shows "length atts = Suc k \<and>
    map fst atts = take (Suc k) pend \<and>
    (\<exists>new. sessions w' = sessions w @ new \<and>
       subseq (map acc_id new) (map acc_id (take (Suc k) pend))) \<and>
    (\<exists>c'. (\<exists>st. c' = (pend ! k)\<lparr>status := st\<rparr>) \<and> isPending today c' \<and>
       subseq (c' # drop (Suc k) pend) (accounts w')) \<and>
    (\<forall>b \<in> set (drop k pend). isPending today b)"
proof -
  let ?endHour = "parseInt (splitColonHead (scheduleEnd (getSchedule w)))"
  let ?w2 = "w\<lparr>dateReads := Suc (Suc (dateReads w))\<rparr>"
  from assms(1,2) have nonempty: "fst (checkAndRun e w) \<noteq> []"
    by auto
  have sched: "getSchedule (w\<lparr>dateReads := Suc (dateReads w)\<rparr>) = getSchedule w"
    by (simp add: getSchedule_def)
  have batch: "checkAndRun e w = runBatch e ?endHour pend ?w2"
  proof (cases "isRunning w")
    case True
    with nonempty show ?thesis by (simp add: checkAndRun_def)
  next
    case False
    show ?thesis
    proof (cases "isActiveTime (getHours e (clock e (dateReads w)))
        (parseInt (splitColonHead (scheduleStart (getSchedule w)))) ?endHour")
      case inactive: False
      with \<open>\<not> isRunning w\<close> sched have "fst (checkAndRun e w) = []"
        by (simp add: checkAndRun_def newDate_def)
      with nonempty show ?thesis by simp
    next
      case True
      with \<open>\<not> isRunning w\<close> sched have "checkAndRun e w =
          runPending e ?endHour (w\<lparr>dateReads := Suc (dateReads w)\<rparr>)"
        by (simp add: checkAndRun_def newDate_def)
      also have "\<dots> = (if pend = [] then ([], ?w2) else runBatch e ?endHour pend ?w2)"
        using assms(5,6) by (simp add: runPending_def newDate_def getAccounts_def)
      finally show ?thesis using nonempty by (auto split: if_splits)
    qed
  qed
  with assms(1) have atts: "atts = fst (runBatch e ?endHour pend ?w2)"
    and w': "w' = snd (runBatch e ?endHour pend ?w2)"
    by simp_all
  from assms(3,4) have busy: "busyResult (snd (fst (runBatch e ?endHour pend ?w2) ! k))"
    by (simp add: busyResult_def atts)
  from assms(2) have k: "k < length (fst (runBatch e ?endHour pend ?w2))"
    by (simp add: atts)
  have len: "length atts = Suc k"
    using runBatch_busy_last[OF k busy] by (simp add: atts)
  have candidates: "map fst atts = take (Suc k) pend"
    using runBatch_attempts[of e ?endHour pend ?w2] len by (simp add: atts)
  from runBatch_sessions[of e ?endHour pend ?w2] len
  have calls: "\<exists>new. sessions w' = sessions w @ new \<and>
       subseq (map acc_id new) (map acc_id (take (Suc k) pend))"
    by (simp add: atts w')
  have "subseq pend (accounts ?w2)"
    by (simp add: assms(6))
  from runBatch_store[OF this k busy] obtain c' st where
    c': "c' = (pend ! k)\<lparr>status := st\<rparr>" "subseq (c' # drop (Suc k) pend) (accounts w')"
    by (auto simp add: w')
  from k runBatch_attempts[of e ?endHour pend ?w2] have "k < length pend"
    by (metis length_map length_take min_less_iff_conj)
  then have "pend ! k \<in> set pend"
    by simp
  then have "isPending today (pend ! k)"
    by (simp add: assms(6))
  with c'(1) have still: "isPending today c'"
    by simp
  have rest: "\<forall>b \<in> set (drop k pend). isPending today b"
    using set_drop_subset[of k pend] by (auto simp add: assms(6))
  from len candidates calls c' still rest show ?thesis
    by blast
qed

theorem busy_stops_batch_witness:
  "length (fst (checkAndRun busyEnv threeWorld)) = 2 \<and>
   map fst (fst (checkAndRun busyEnv threeWorld)) = [alice, bob] \<and>
   message (snd (fst (checkAndRun busyEnv threeWorld) ! 1)) = Some ''BUSY'' \<and>
   (\<exists>new. sessions (snd (checkAndRun busyEnv threeWorld)) = sessions threeWorld @ new \<and>
       subseq (map acc_id new) [acc_id alice, acc_id bob]) \<and>
   (\<exists>st. subseq [bob\<lparr>status := st\<rparr>, carol] (accounts (snd (checkAndRun busyEnv threeWorld)))) \<and>
   isPending 0 bob \<and> isPending 0 carol"
proof -
  have run: "checkAndRun busyEnv threeWorld =
      (fst (checkAndRun busyEnv threeWorld), snd (checkAndRun busyEnv threeWorld))"
    by simp
  have k: "1 < length (fst (checkAndRun busyEnv threeWorld))"
    by code_simp
  have failed: "\<not> ok (snd (fst (checkAndRun busyEnv threeWorld) ! 1))"
    by code_simp
  have busy: "message (snd (fst (checkAndRun busyEnv threeWorld) ! 1)) = Some ''BUSY''"
    by code_simp
  have today: "0 = isoDate (clock busyEnv (Suc (dateReads threeWorld)))"
    by code_simp
  have pend: "[alice, bob, carol] = filter (isPending 0) (accounts threeWorld)"
    by code_simp
  from busy_stops_batch[OF run k failed busy today pend] busy show ?thesis
    by auto
qed

end
